theory Spec2Isabelle
  imports Main "HOL-Library.Word"
begin

unbundle bit_operations_syntax

section \<open>The Cub file reader (cubfile.c)\<close>

text \<open>
  A shallow embedding of \<^verbatim>\<open>cubfile.c\<close>. The C library is the environment of the code
  and is modelled as follows.
  \<^item> The input \<^verbatim>\<open>FILE*\<close> is a seekable sequence of bytes with a cursor. \<^verbatim>\<open>fseek\<close> with
    \<^verbatim>\<open>SEEK_SET\<close> always succeeds (also beyond the end of the file); \<^verbatim>\<open>fread\<close> delivers
    the bytes that are left, advances the cursor and returns the number of complete
    items. At the end of the file \<^verbatim>\<open>fread\<close> returns a short count and leaves \<^verbatim>\<open>errno\<close>
    as it was (ISO C and POSIX set \<^verbatim>\<open>errno\<close> on an error only, never at end of file).
  \<^item> The output \<^verbatim>\<open>FILE*\<close> is the sequence of bytes written so far, with a schedule of
    how many bytes each coming \<^verbatim>\<open>fwrite\<close> call accepts (no schedule: everything).
    A short write stores the error number \<open>EIO\<close> in \<^verbatim>\<open>errno\<close>.
  \<^item> \<^verbatim>\<open>errno\<close> is a field of the state; its value at the call is an input.
  \<^item> \<^verbatim>\<open>malloc\<close> succeeds and returns an array of uninitialised elements
    (\<open>None\<close>). Reading an uninitialised element, or an element outside its array, is
    undefined behaviour in C and is a \<open>fault\<close> in the model.
  \<^item> \<^verbatim>\<open>int\<close> and \<^verbatim>\<open>uint32_t\<close> are 32 bits wide; \<^verbatim>\<open>long\<close> and \<^verbatim>\<open>unsigned long\<close>
    are 64 bits wide, so that offsets and lengths read from the file are natural numbers
    below \<open>2^32\<close> and valid arguments of \<^verbatim>\<open>fseek\<close>; the conversion of a
    \<^verbatim>\<open>uint32_t\<close> to \<^verbatim>\<open>int\<close> wraps around (\<open>sint\<close>).
  \<^item> The byte order of the host is a parameter of every operation.
\<close>

subsection \<open>Data model\<close>

type_synonym byte = "8 word"
type_synonym uint32 = "32 word"

datatype endian = BigEndianHost | LittleEndianHost

datatype fault = OutOfBoundsAccess | UninitialisedRead

text \<open>
  Modelled from the spec: \<^verbatim>\<open>cubfile.h\<close> is not part of the sources. The spec gives the kinds
  0 to 6 (assembly = 6), all non-negative, so \<^verbatim>\<open>enum CubFileType\<close> is represented by an
  unsigned 32-bit integer, and the comparison with \<^verbatim>\<open>CUB_FILE_ASSEMBLY\<close> is unsigned.
\<close>

type_synonym CubFileType = uint32

definition CUB_FILE_ASSEMBLY :: CubFileType where
  "CUB_FILE_ASSEMBLY = 6"

text \<open>
  Modelled from the spec: \<^verbatim>\<open>struct CubFileBlock\<close> of \<^verbatim>\<open>cubfile.h\<close>, with the three
  fields the code assigns.
\<close>

record CubFileBlock =
  type_b :: CubFileType
  offset_b :: nat
  length_b :: nat

text \<open>
  Modelled from the spec: the error codes of \<^verbatim>\<open>cubfile.h\<close>. \<^verbatim>\<open>print_error\<close> negates
  a code and uses it as the index into its table of messages, which fixes the values:
  INVALID FILE is 1, CORRUPT FILE is 2, OVERFLOW is 3, NOT FOUND is 4. A positive
  result is a value of \<^verbatim>\<open>errno\<close> (the spec's IoError), and 0 is success.
\<close>

definition CUB_FILE_INVALID :: int where
  "CUB_FILE_INVALID = - 1"

definition CUB_FILE_CORRUPT :: int where
  "CUB_FILE_CORRUPT = - 2"

definition CUB_FILE_OVERFLOW :: int where
  "CUB_FILE_OVERFLOW = - 3"

definition CUB_FILE_NOT_FOUND :: int where
  "CUB_FILE_NOT_FOUND = - 4"

definition BIGENDIAN :: uint32 where
  "BIGENDIAN = 0xFFFFFFFF"

definition LITENDIAN :: uint32 where
  "LITENDIAN = 0x00000000"

text \<open>The error number a failing \<^verbatim>\<open>fwrite\<close> leaves in \<^verbatim>\<open>errno\<close>.\<close>

definition EIO :: int where
  "EIO = 5"

record world =
  errno :: int
  cub_bytes :: "byte list"
  cub_pos :: nat
  out_written :: "byte list"
  out_quota :: "nat list"

subsection \<open>The C library\<close>

definition fseek :: "world \<Rightarrow> nat \<Rightarrow> int \<times> world" where
  "fseek w off = (0, w\<lparr>cub_pos := off\<rparr>)"

text \<open>
  \<^verbatim>\<open>fread(buf, size, nmemb, file)\<close>: the bytes delivered, the number of complete items,
  and the state with the cursor advanced.
\<close>

definition fread :: "nat \<Rightarrow> nat \<Rightarrow> world \<Rightarrow> byte list \<times> nat \<times> world" where
  "fread sz nmemb w =
     (let got = take (sz * nmemb) (drop (cub_pos w) (cub_bytes w))
      in (got, length got div sz, w\<lparr>cub_pos := cub_pos w + length got\<rparr>))"

text \<open>\<^verbatim>\<open>fwrite(ptr, 1, count, outfile)\<close>: the number of bytes written and the new state.\<close>

definition fwrite :: "byte list \<Rightarrow> world \<Rightarrow> nat \<times> world" where
  "fwrite bs w =
     (case out_quota w of
        [] \<Rightarrow> (length bs, w\<lparr>out_written := out_written w @ bs\<rparr>)
      | q # qs \<Rightarrow>
          (let n = min q (length bs)
           in (n, w\<lparr>errno := (if n < length bs then EIO else errno w),
                    out_written := out_written w @ take n bs,
                    out_quota := qs\<rparr>)))"

subsection \<open>Words in memory\<close>

text \<open>The four bytes of a \<^verbatim>\<open>uint32_t\<close> in the memory of the host, and back.\<close>

definition store32 :: "endian \<Rightarrow> uint32 \<Rightarrow> byte list" where
  "store32 host x =
     (let msb_first = [ucast (drop_bit 24 x), ucast (drop_bit 16 x), ucast (drop_bit 8 x), ucast x]
      in case host of BigEndianHost \<Rightarrow> msb_first | LittleEndianHost \<Rightarrow> rev msb_first)"

definition load32_msb :: "byte list \<Rightarrow> uint32" where
  "load32_msb bs =
     push_bit 24 (ucast (bs ! 0)) OR push_bit 16 (ucast (bs ! 1)) OR
     push_bit 8 (ucast (bs ! 2)) OR ucast (bs ! 3)"

definition load32 :: "endian \<Rightarrow> byte list \<Rightarrow> uint32" where
  "load32 host bs =
     (case host of BigEndianHost \<Rightarrow> load32_msb (take 4 bs)
      | LittleEndianHost \<Rightarrow> load32_msb (rev (take 4 bs)))"

text \<open>\<^verbatim>\<open>data[k]\<close> for a \<^verbatim>\<open>uint32_t data[6]\<close> whose memory is the byte list \<open>mem\<close>.\<close>

definition data_at :: "endian \<Rightarrow> byte list \<Rightarrow> nat \<Rightarrow> uint32" where
  "data_at host mem k = load32 host (drop (4 * k) mem)"

subsection \<open>get_endian and swap_bytes\<close>

text \<open>
  \<^verbatim>\<open>get_endian\<close> reads the first byte of the \<^verbatim>\<open>unsigned\<close> 1 in memory and uses it as
  the index into \<^verbatim>\<open>{ BIGENDIAN, LITENDIAN }\<close>.
\<close>

definition get_endian :: "endian \<Rightarrow> uint32" where
  "get_endian host = [BIGENDIAN, LITENDIAN] ! unat (hd (store32 host 1))"

text \<open>The inner loop of \<^verbatim>\<open>swap_bytes\<close>: \<open>start\<close> and \<open>endp\<close> are indices into the memory.\<close>

function swap_inner :: "byte list \<Rightarrow> nat \<Rightarrow> nat \<Rightarrow> byte list" where
  "swap_inner mem start endp =
     (if endp > start
      then swap_inner (mem[start := mem ! endp, endp := mem ! start]) (start + 1) (endp - 1)
      else mem)"
  by pat_completeness auto
termination
  by (relation "measure (\<lambda>(mem, start, endp). endp - start)") auto

text \<open>
  The outer loop of \<^verbatim>\<open>swap_bytes\<close>. The C loop has the condition \<^verbatim>\<open>curptr < endptr\<close>
  alone; with \<open>width = 0\<close> the end pointer equals the start pointer and the loop is
  never entered, so the second conjunct only makes the recursion well-founded.
\<close>

function swap_outer :: "byte list \<Rightarrow> nat \<Rightarrow> nat \<Rightarrow> nat \<Rightarrow> byte list" where
  "swap_outer mem curptr endptr width =
     (if curptr < endptr \<and> 0 < width
      then swap_outer (swap_inner mem curptr (curptr + width - 1)) (curptr + width) endptr width
      else mem)"
  by pat_completeness auto
termination
  by (relation "measure (\<lambda>(mem, curptr, endptr, width). endptr - curptr)") auto

definition swap_bytes :: "byte list \<Rightarrow> nat \<Rightarrow> nat \<Rightarrow> byte list" where
  "swap_bytes bytes count width = swap_outer bytes 0 (count * width) width"

subsection \<open>check_file_internal and cub_file_check\<close>

definition CUBE :: "byte list" where
  "CUBE = [0x43, 0x55, 0x42, 0x45]"

text \<open>
  The result code, the three output parameters (\<open>None\<close> when the function returns
  without assigning them) and the new state.
\<close>

definition check_file_internal ::
    "endian \<Rightarrow> world \<Rightarrow> int \<times> (bool \<times> int \<times> nat) option \<times> world" where
  "check_file_internal host w =
     (case fseek w 0 of (rc, w1) \<Rightarrow>
      if rc \<noteq> 0 then (errno w1, None, w1)
      else case fread 4 1 w1 of (buffer, n, w2) \<Rightarrow>
      if n = 0 then (errno w2, None, w2)
      else if buffer \<noteq> CUBE then (CUB_FILE_INVALID, None, w2)
      else case fread 4 6 w2 of (data, n6, w3) \<Rightarrow>
      if 6 \<noteq> n6 then (errno w3, None, w3)
      else if data_at host data 0 \<noteq> BIGENDIAN \<and> data_at host data 0 \<noteq> LITENDIAN
        then (CUB_FILE_CORRUPT, None, w3)
      else
        (let swap = (data_at host data 0 \<noteq> get_endian host);
             data' = (if swap then swap_bytes data 6 4 else data)
         in (0, Some (swap, sint (data_at host data' 2), unat (data_at host data' 3)), w3)))"

text \<open>
  \<^verbatim>\<open>cub_file_check\<close> copies \<^verbatim>\<open>swap_space\<close> and \<^verbatim>\<open>count_space\<close> to the caller when the
  result is 0; a caller that passes a null pointer ignores that component.
\<close>

definition cub_file_check :: "endian \<Rightarrow> world \<Rightarrow> int \<times> (bool \<times> int) option \<times> world" where
  "cub_file_check host w =
     (case check_file_internal host w of (result, outs, w1) \<Rightarrow>
      if result \<noteq> 0 then (result, None, w1)
      else (0, map_option (\<lambda>(swap, count, offset). (swap, count)) outs, w1))"

subsection \<open>cub_file_contents\<close>

text \<open>
  The loop of \<^verbatim>\<open>cub_file_contents\<close>. The array \<open>blocks\<close> is the caller's; an assignment
  beyond its end is a fault.
\<close>

function contents_loop ::
    "endian \<Rightarrow> bool \<Rightarrow> int \<Rightarrow> nat \<Rightarrow> CubFileBlock option list \<Rightarrow> world
     \<Rightarrow> fault + (int \<times> CubFileBlock option list \<times> world)" where
  "contents_loop host swap count i blocks w =
     (if int i < count then
        (case fread 4 6 w of (data, n6, w1) \<Rightarrow>
         if 6 \<noteq> n6 then Inr (errno w1, blocks, w1)
         else
           (let data' = (if swap then swap_bytes data 6 4 else data)
            in if length blocks \<le> i then Inl OutOfBoundsAccess
               else contents_loop host swap count (i + 1)
                      (blocks[i := Some \<lparr>type_b = data_at host data' 0,
                                          offset_b = unat (data_at host data' 1),
                                          length_b = unat (data_at host data' 2)\<rparr>]) w1))
      else Inr (0, blocks, w))"
  by pat_completeness auto
termination
  by (relation "measure (\<lambda>(host, swap, count, i, blocks, w). nat (count - int i))") auto

definition cub_file_contents ::
    "endian \<Rightarrow> world \<Rightarrow> CubFileBlock option list \<Rightarrow> int
     \<Rightarrow> fault + (int \<times> CubFileBlock option list \<times> world)" where
  "cub_file_contents host w blocks blocks_length =
     (case check_file_internal host w of (result, outs, w1) \<Rightarrow>
      if result \<noteq> 0 then Inr (result, blocks, w1)
      else
        (case outs of
           None \<Rightarrow> Inl UninitialisedRead
         | Some (swap, count, offset) \<Rightarrow>
             if blocks_length < count then Inr (CUB_FILE_OVERFLOW, blocks, w1)
             else
               (case fseek w1 offset of (rc, w2) \<Rightarrow>
                if rc \<noteq> 0 then Inr (errno w2, blocks, w2)
                else contents_loop host swap count 0 blocks w2)))"

text \<open>\<^verbatim>\<open>malloc(count * sizeof(struct CubFileBlock))\<close>: \<open>count\<close> uninitialised elements.\<close>

definition malloc_blocks :: "int \<Rightarrow> CubFileBlock option list" where
  "malloc_blocks count = replicate (nat count) None"

text \<open>Reading \<^verbatim>\<open>data[i]\<close> for an \<^verbatim>\<open>int i\<close>.\<close>

definition block_at :: "CubFileBlock option list \<Rightarrow> int \<Rightarrow> fault + CubFileBlock" where
  "block_at data i =
     (if i < 0 \<or> int (length data) \<le> i then Inl OutOfBoundsAccess
      else case data ! nat i of None \<Rightarrow> Inl UninitialisedRead | Some b \<Rightarrow> Inr b)"

subsection \<open>internal_copy_data\<close>

text \<open>
  The inner loop of \<^verbatim>\<open>internal_copy_data\<close>: \<open>ptr\<close> is an index into the buffer. The
  result is \<open>Some r\<close> when the function returns \<open>r\<close> from inside the loop.
\<close>

function write_loop :: "byte list \<Rightarrow> nat \<Rightarrow> nat \<Rightarrow> world \<Rightarrow> int option \<times> world" where
  "write_loop buffer ptr count w =
     (if count \<noteq> 0 then
        (case fwrite (take count (drop ptr buffer)) w of (ww, w1) \<Rightarrow>
         if ww = 0 then (Some (errno w1), w1)
         else write_loop buffer (ptr + ww) (count - ww) w1)
      else (None, w))"
  by pat_completeness auto
termination
  by (relation "measure (\<lambda>(buffer, ptr, count, w). count)") auto

function copy_loop :: "nat \<Rightarrow> world \<Rightarrow> int \<times> world" where
  "copy_loop len w =
     (if len \<noteq> 0 then
        (case fread 1 (if len < 1024 then len else 1024) w of (buffer, count, w1) \<Rightarrow>
         if count = 0 then (errno w1, w1)
         else
           (case write_loop buffer 0 count w1 of
              (Some r, w2) \<Rightarrow> (r, w2)
            | (None, w2) \<Rightarrow> copy_loop (len - count) w2))
      else (0, w))"
  by pat_completeness auto
termination
  by (relation "measure (\<lambda>(len, w). len)") auto

definition internal_copy_data :: "world \<Rightarrow> nat \<Rightarrow> nat \<Rightarrow> int \<times> world" where
  "internal_copy_data w offset len =
     (case fseek w offset of (rc, w1) \<Rightarrow>
      if rc \<noteq> 0 then (errno w1, w1) else copy_loop len w1)"

subsection \<open>cub_file_block and cub_file_type\<close>

definition cub_file_block :: "endian \<Rightarrow> world \<Rightarrow> int \<Rightarrow> fault + (int \<times> world)" where
  "cub_file_block host w block =
     (case cub_file_check host w of (result, outs, w1) \<Rightarrow>
      if result \<noteq> 0 then Inr (result, w1)
      else
        (case outs of
           None \<Rightarrow> Inl UninitialisedRead
         | Some (swap, count) \<Rightarrow>
             if count = 0 then Inr (CUB_FILE_CORRUPT, w1)
             else
               (case cub_file_contents host w1 (malloc_blocks count) count of
                  Inl f \<Rightarrow> Inl f
                | Inr (result, data, w2) \<Rightarrow>
                    if result \<noteq> 0 then Inr (result, w2)
                    else if block \<ge> count then Inr (CUB_FILE_NOT_FOUND, w2)
                    else
                      (case block_at data block of
                         Inl f \<Rightarrow> Inl f
                       | Inr b \<Rightarrow>
                           if length_b b = 0 then Inr (CUB_FILE_NOT_FOUND, w2)
                           else Inr (internal_copy_data w2 (offset_b b) (length_b b))))))"

text \<open>
  The scan \<^verbatim>\<open>for (i = 0; i < count && data[i].type != type; ++i);\<close> of
  \<^verbatim>\<open>cub_file_type\<close>; the result is the final value of \<open>i\<close>.
\<close>

function type_scan :: "CubFileBlock option list \<Rightarrow> int \<Rightarrow> CubFileType \<Rightarrow> nat \<Rightarrow> fault + nat" where
  "type_scan data count ty i =
     (if int i < count then
        (case block_at data (int i) of
           Inl f \<Rightarrow> Inl f
         | Inr b \<Rightarrow> if type_b b \<noteq> ty then type_scan data count ty (i + 1) else Inr i)
      else Inr i)"
  by pat_completeness auto
termination
  by (relation "measure (\<lambda>(data, count, ty, i). nat (count - int i))") auto

definition cub_file_type :: "endian \<Rightarrow> world \<Rightarrow> CubFileType \<Rightarrow> fault + (int \<times> world)" where
  "cub_file_type host w ty =
     (case cub_file_check host w of (result, outs, w1) \<Rightarrow>
      if result \<noteq> 0 then Inr (result, w1)
      else
        (case outs of
           None \<Rightarrow> Inl UninitialisedRead
         | Some (swap, count) \<Rightarrow>
             if count = 0 then Inr (CUB_FILE_CORRUPT, w1)
             else
               (case cub_file_contents host w1 (malloc_blocks count) count of
                  Inl f \<Rightarrow> Inl f
                | Inr (result, data, w2) \<Rightarrow>
                    if result \<noteq> 0 then Inr (result, w2)
                    else
                      (case type_scan data count ty 0 of
                         Inl f \<Rightarrow> Inl f
                       | Inr i \<Rightarrow>
                           if int i = count then Inr (CUB_FILE_NOT_FOUND, w2)
                           else
                             (case block_at data (int i) of
                                Inl f \<Rightarrow> Inl f
                              | Inr b \<Rightarrow>
                                  if length_b b = 0 then Inr (CUB_FILE_NOT_FOUND, w2)
                                  else Inr (internal_copy_data w2 (offset_b b)
                                         (length_b b)))))))"

subsection \<open>print_error and cub_file_list\<close>

text \<open>
  The text written to \<^verbatim>\<open>stream\<close>. \<^verbatim>\<open>perror\<close> writes to the standard error stream, not
  to \<^verbatim>\<open>stream\<close>; the model records that it was called.
\<close>

definition newline :: char where
  "newline = CHR 0x0A"

fun dec :: "nat \<Rightarrow> string" where
  "dec n = (if n < 10 then [''0123456789'' ! n]
            else dec (n div 10) @ [''0123456789'' ! (n mod 10)])"

text \<open>A conversion with a minimum field width, right-justified (\<^verbatim>\<open>%9s\<close>, \<^verbatim>\<open>%10lu\<close>).\<close>

definition pad :: "nat \<Rightarrow> string \<Rightarrow> string" where
  "pad width s = replicate (width - length s) CHR '' '' @ s"

definition errors :: "string list" where
  "errors = [''OKAY'', ''INVALID FILE'', ''CORRUPT FILE'', ''OVERFLOW'', ''NOT FOUND'']"

definition print_error :: "int \<Rightarrow> string \<times> bool" where
  "print_error err =
     (if err > 0 then ([], True)
      else if nat (- err) \<ge> length errors then (''UNKNOWN ERROR'' @ [newline], False)
      else (errors ! nat (- err) @ [newline], False))"

definition typenames :: "string list" where
  "typenames = [''?'', ''ACIS'', ''MESH'', ''FACET'', ''FREE MESH'', ''GRANITE'', ''ASSEMBLY'']"

text \<open>An access to \<^verbatim>\<open>typenames\<close>; an index outside the table is a fault.\<close>

definition typenames_at :: "nat \<Rightarrow> fault + string" where
  "typenames_at k = (if k < length typenames then Inr (typenames ! k) else Inl OutOfBoundsAccess)"

text \<open>
  The second argument of the \<^verbatim>\<open>fprintf\<close> of a row:
  \<^verbatim>\<open>data[i].type <= CUB_FILE_ASSEMBLY ? typenames[data[i].type] : typenames[0]\<close>.
\<close>

definition type_name :: "CubFileType \<Rightarrow> fault + string" where
  "type_name t = (if t \<le> CUB_FILE_ASSEMBLY then typenames_at (unat t) else typenames_at 0)"

text \<open>\<^verbatim>\<open>"%3d  %9s  %4u  %10lu  %10lu\n"\<close>\<close>

definition list_row :: "nat \<Rightarrow> string \<Rightarrow> CubFileBlock \<Rightarrow> string" where
  "list_row i name b =
     pad 3 (dec i) @ ''  '' @ pad 9 name @ ''  '' @ pad 4 (dec (unat (type_b b))) @ ''  '' @
     pad 10 (dec (offset_b b)) @ ''  '' @ pad 10 (dec (length_b b)) @ [newline]"

function list_loop :: "CubFileBlock option list \<Rightarrow> int \<Rightarrow> nat \<Rightarrow> string \<Rightarrow> fault + string" where
  "list_loop data count i stream =
     (if int i < count then
        (case block_at data (int i) of
           Inl f \<Rightarrow> Inl f
         | Inr b \<Rightarrow>
             (case type_name (type_b b) of
                Inl f \<Rightarrow> Inl f
              | Inr name \<Rightarrow> list_loop data count (i + 1) (stream @ list_row i name b)))
      else Inr stream)"
  by pat_completeness auto
termination
  by (relation "measure (\<lambda>(data, count, i, stream). nat (count - int i))") auto

definition list_heading :: string where
  "list_heading =
     ''Idx  Type Name  Type      Offset      Length'' @ [newline] @
     ''---  ---------  ----  ----------  ----------'' @ [newline]"

text \<open>The text written to \<^verbatim>\<open>stream\<close>, whether \<^verbatim>\<open>perror\<close> was called, and the new state.\<close>

definition cub_file_list :: "endian \<Rightarrow> world \<Rightarrow> fault + (string \<times> bool \<times> world)" where
  "cub_file_list host w =
     (case cub_file_check host w of (result, outs, w1) \<Rightarrow>
      if result \<noteq> 0 then Inr (fst (print_error result), snd (print_error result), w1)
      else
        (case outs of
           None \<Rightarrow> Inl UninitialisedRead
         | Some (swap, count) \<Rightarrow>
             if count = 0 then Inr (''Table of contents is empty'' @ [newline], False, w1)
             else
               (case cub_file_contents host w1 (malloc_blocks count) count of
                  Inl f \<Rightarrow> Inl f
                | Inr (result, data, w2) \<Rightarrow>
                    if result \<noteq> 0
                    then Inr (fst (print_error result), snd (print_error result), w2)
                    else
                      (case list_loop data count 0 list_heading of
                         Inl f \<Rightarrow> Inl f
                       | Inr stream \<Rightarrow> Inr (stream, False, w2)))))"

subsection \<open>The format as the specification describes it\<close>

text \<open>
  The endian tag of a file written in the given byte order, which is also the sentinel
  of a host of that byte order: \<open>0xFFFFFFFF\<close> for big-endian, \<open>0x00000000\<close> for
  little-endian.
\<close>

definition endian_tag :: "endian \<Rightarrow> uint32" where
  "endian_tag order = (case order of BigEndianHost \<Rightarrow> 0xFFFFFFFF | LittleEndianHost \<Rightarrow> 0)"

text \<open>Word \<open>k\<close> of the six header words at offset 4 of the file, as the host reads it.\<close>

definition header_word :: "endian \<Rightarrow> world \<Rightarrow> nat \<Rightarrow> uint32" where
  "header_word host w k = data_at host (take 24 (drop 4 (cub_bytes w))) k"

text \<open>The name of a kind in the listing: the placeholder for every kind above 6.\<close>

definition type_name_text :: "CubFileType \<Rightarrow> string" where
  "type_name_text t = (if 6 < t then ''?'' else typenames ! unat t)"

text \<open>
  The layout of the format: the four bytes \<open>CUBE\<close>, six header words (the endian tag,
  a reserved word, the block count, the offset of the table of contents, two reserved
  words), and at the offset of the table one record of six words for each block (kind,
  offset, length, three reserved words). Every word is written in the byte order of the
  file. \<open>gap\<close> is what lies between the header and the table, \<open>rest\<close> what follows
  the table.
\<close>

definition encode_words :: "endian \<Rightarrow> uint32 list \<Rightarrow> byte list" where
  "encode_words order ws = concat (map (store32 order) ws)"

definition encode_cub ::
    "endian \<Rightarrow> uint32 \<Rightarrow> uint32 \<Rightarrow> uint32 \<Rightarrow> byte list \<Rightarrow> uint32 list list \<Rightarrow> byte list
     \<Rightarrow> byte list" where
  "encode_cub order r1 r4 r5 gap recs rest =
     CUBE @
     encode_words order
       [endian_tag order, r1, word_of_nat (length recs), word_of_nat (28 + length gap), r4, r5] @
     gap @ concat (map (encode_words order) recs) @ rest"

text \<open>The descriptor that a record of six words stands for.\<close>

definition descriptor :: "uint32 list \<Rightarrow> CubFileBlock" where
  "descriptor r = \<lparr>type_b = r ! 0, offset_b = unat (r ! 1), length_b = unat (r ! 2)\<rparr>"

subsection \<open>Example files\<close>

definition mk_world :: "byte list \<Rightarrow> world" where
  "mk_world bs = \<lparr>errno = 0, cub_bytes = bs, cub_pos = 0, out_written = [], out_quota = []\<rparr>"

text \<open>
  A little-endian file: two descriptors at offset 28, \<open>(kind 2, offset 76, length 10)\<close> and
  \<open>(kind 0, offset 86, length 0)\<close>, and ten bytes of payload at offset 76.
\<close>

definition example_bytes :: "byte list" where
  "example_bytes =
     [0x43, 0x55, 0x42, 0x45,
      0, 0, 0, 0,  0, 0, 0, 0,  2, 0, 0, 0,  28, 0, 0, 0,  0, 0, 0, 0,  0, 0, 0, 0,
      2, 0, 0, 0,  76, 0, 0, 0,  10, 0, 0, 0,  0, 0, 0, 0,  0, 0, 0, 0,  0, 0, 0, 0,
      0, 0, 0, 0,  86, 0, 0, 0,  0, 0, 0, 0,  0, 0, 0, 0,  0, 0, 0, 0,  0, 0, 0, 0,
      1, 2, 3, 4, 5, 6, 7, 8, 9, 10]"

text \<open>The same file with the payload cut off after five bytes.\<close>

definition truncated_bytes :: "byte list" where
  "truncated_bytes =
     [0x43, 0x55, 0x42, 0x45,
      0, 0, 0, 0,  0, 0, 0, 0,  2, 0, 0, 0,  28, 0, 0, 0,  0, 0, 0, 0,  0, 0, 0, 0,
      2, 0, 0, 0,  76, 0, 0, 0,  10, 0, 0, 0,  0, 0, 0, 0,  0, 0, 0, 0,  0, 0, 0, 0,
      0, 0, 0, 0,  86, 0, 0, 0,  0, 0, 0, 0,  0, 0, 0, 0,  0, 0, 0, 0,  0, 0, 0, 0,
      1, 2, 3, 4, 5]"

text \<open>
  Two descriptors of kind 2: the first with length 0, the second with length 10 at
  offset 76.
\<close>

definition duplicate_bytes :: "byte list" where
  "duplicate_bytes =
     [0x43, 0x55, 0x42, 0x45,
      0, 0, 0, 0,  0, 0, 0, 0,  2, 0, 0, 0,  28, 0, 0, 0,  0, 0, 0, 0,  0, 0, 0, 0,
      2, 0, 0, 0,  76, 0, 0, 0,  0, 0, 0, 0,  0, 0, 0, 0,  0, 0, 0, 0,  0, 0, 0, 0,
      2, 0, 0, 0,  76, 0, 0, 0,  10, 0, 0, 0,  0, 0, 0, 0,  0, 0, 0, 0,  0, 0, 0, 0,
      1, 2, 3, 4, 5, 6, 7, 8, 9, 10]"

text \<open>A big-endian file with two descriptors of the kinds 99 and \<open>0xFFFFFFFF\<close>.\<close>

definition unknown_kind_bytes :: "byte list" where
  "unknown_kind_bytes =
     [0x43, 0x55, 0x42, 0x45,
      0xFF, 0xFF, 0xFF, 0xFF,  0, 0, 0, 0,  0, 0, 0, 2,  0, 0, 0, 28,  0, 0, 0, 0,  0, 0, 0, 0,
      0, 0, 0, 99,  0, 0, 0, 76,  0, 0, 0, 1,  0, 0, 0, 0,  0, 0, 0, 0,  0, 0, 0, 0,
      0xFF, 0xFF, 0xFF, 0xFF,  0, 0, 0, 77,  0, 0, 0, 1,  0, 0, 0, 0,  0, 0, 0, 0,  0, 0, 0, 0,
      7, 8]"

text \<open>A little-endian header with block count 0.\<close>

definition empty_toc_bytes :: "byte list" where
  "empty_toc_bytes =
     [0x43, 0x55, 0x42, 0x45,
      0, 0, 0, 0,  0, 0, 0, 0,  0, 0, 0, 0,  28, 0, 0, 0,  0, 0, 0, 0,  0, 0, 0, 0]"

text \<open>The magic tag is wrong in its last byte; the rest is the header of an empty file.\<close>

definition bad_magic_bytes :: "byte list" where
  "bad_magic_bytes =
     [0x43, 0x55, 0x42, 0x46,
      0, 0, 0, 0,  0, 0, 0, 0,  0, 0, 0, 0,  28, 0, 0, 0,  0, 0, 0, 0,  0, 0, 0, 0]"

text \<open>The first header word is 1 in little-endian order: neither sentinel.\<close>

definition bad_tag_bytes :: "byte list" where
  "bad_tag_bytes =
     [0x43, 0x55, 0x42, 0x45,
      1, 0, 0, 0,  0, 0, 0, 0,  0, 0, 0, 0,  28, 0, 0, 0,  0, 0, 0, 0,  0, 0, 0, 0]"

text \<open>
  A file written in the given byte order: a gap of one byte before the table of contents,
  the descriptors \<open>(kind 2, offset 77, length 10)\<close> and \<open>(kind 99, offset 87, length 0)\<close>
  with non-zero reserved words.
\<close>

definition round_trip_bytes :: "endian \<Rightarrow> byte list" where
  "round_trip_bytes order =
     encode_cub order 7 8 9 [5] [[2, 77, 10, 1, 2, 3], [99, 87, 0, 4, 5, 6]] [1, 2]"

section \<open>Properties\<close>

declare swap_inner.simps [simp del] swap_outer.simps [simp del] contents_loop.simps [simp del]
  write_loop.simps [simp del] copy_loop.simps [simp del] type_scan.simps [simp del]
  list_loop.simps [simp del] dec.simps [simp del]

subsection \<open>The library and the header\<close>

lemma fread_enough:
  assumes "cub_pos w + sz * n \<le> length (cub_bytes w)" and "0 < sz"
  shows "fread sz n w =
    (take (sz * n) (drop (cub_pos w) (cub_bytes w)), n, w\<lparr>cub_pos := cub_pos w + sz * n\<rparr>)"
proof -
  have "min (length (cub_bytes w) - cub_pos w) (sz * n) = sz * n"
    using assms by simp
  then show ?thesis
    using assms by (simp add: fread_def Let_def)
qed

lemma check_invalid:
  assumes "4 \<le> length (cub_bytes w)" and "take 4 (cub_bytes w) \<noteq> CUBE"
  shows "check_file_internal host w = (CUB_FILE_INVALID, None, w\<lparr>cub_pos := 4\<rparr>)"
  using assms by (simp add: check_file_internal_def fseek_def fread_enough)

lemma check_header:
  assumes "28 \<le> length (cub_bytes w)" and "take 4 (cub_bytes w) = CUBE"
  shows "check_file_internal host w =
     (let data = take 24 (drop 4 (cub_bytes w));
          swap = (data_at host data 0 \<noteq> get_endian host);
          data' = (if swap then swap_bytes data 6 4 else data) in
      if data_at host data 0 \<noteq> BIGENDIAN \<and> data_at host data 0 \<noteq> LITENDIAN
      then (CUB_FILE_CORRUPT, None, w\<lparr>cub_pos := 28\<rparr>)
      else (0, Some (swap, sint (data_at host data' 2), unat (data_at host data' 3)),
            w\<lparr>cub_pos := 28\<rparr>))"
  using assms by (simp add: check_file_internal_def fseek_def fread_enough Let_def)

lemma get_endian_tag: "get_endian host = endian_tag host"
  by (cases host)
    (simp_all add: get_endian_def store32_def endian_tag_def BIGENDIAN_def LITENDIAN_def)

lemma cub_file_check_internal:
  assumes "cub_file_check host w = (0, Some (swap, count), w1)"
  shows "\<exists>offset. check_file_internal host w = (0, Some (swap, count, offset), w1)"
  using assms
  by (cases "check_file_internal host w") (auto simp: cub_file_check_def split: if_splits)

text \<open>
  C7. Whenever the file has at least four bytes (so that the seek and the read of the magic
  tag succeed) and its first four bytes are not \<open>CUBE\<close>, \<open>cub_file_check\<close> returns
  \<open>CUB_FILE_INVALID\<close>, whatever the rest of the file, the value of \<open>errno\<close> and the
  byte order of the host are.
\<close>

theorem C7_magic_invalid:
  assumes "4 \<le> length (cub_bytes w)" and "take 4 (cub_bytes w) \<noteq> CUBE"
  shows "cub_file_check host w = (CUB_FILE_INVALID, None, w\<lparr>cub_pos := 4\<rparr>)"
  using assms by (simp add: cub_file_check_def check_invalid CUB_FILE_INVALID_def)

theorem C7_magic_invalid_witness:
  "4 \<le> length (cub_bytes (mk_world bad_magic_bytes)) \<and>
   take 4 (cub_bytes (mk_world bad_magic_bytes)) \<noteq> CUBE \<and>
   cub_file_check LittleEndianHost (mk_world bad_magic_bytes) =
     (CUB_FILE_INVALID, None, (mk_world bad_magic_bytes)\<lparr>cub_pos := 4\<rparr>)"
proof -
  have h1: "4 \<le> length (cub_bytes (mk_world bad_magic_bytes))"
    by (simp add: mk_world_def bad_magic_bytes_def)
  have h2: "take 4 (cub_bytes (mk_world bad_magic_bytes)) \<noteq> CUBE"
    by (simp add: mk_world_def bad_magic_bytes_def CUBE_def)
  show ?thesis
    using h1 h2 C7_magic_invalid [OF h1 h2, of LittleEndianHost] by simp
qed

text \<open>
  C8. For a file with the magic tag \<open>CUBE\<close> and a complete header of six words:
  when word 0 of the header is neither \<open>0xFFFFFFFF\<close> nor \<open>0\<close>, \<open>cub_file_check\<close>
  returns \<open>CUB_FILE_CORRUPT\<close>; otherwise it returns 0 and the swap flag is true exactly
  when word 0 differs from the sentinel of the host's byte order.
\<close>

theorem C8_endian_tag:
  assumes "28 \<le> length (cub_bytes w)" and "take 4 (cub_bytes w) = CUBE"
  shows "if header_word host w 0 \<noteq> 0xFFFFFFFF \<and> header_word host w 0 \<noteq> 0
         then fst (cub_file_check host w) = CUB_FILE_CORRUPT
         else fst (cub_file_check host w) = 0 \<and>
              map_option fst (fst (snd (cub_file_check host w))) =
                Some (header_word host w 0 \<noteq> endian_tag host)"
  using assms
  by (simp add: cub_file_check_def check_header Let_def header_word_def get_endian_tag
      BIGENDIAN_def LITENDIAN_def CUB_FILE_CORRUPT_def)

theorem C8_endian_tag_witness:
  "28 \<le> length (cub_bytes (mk_world bad_tag_bytes)) \<and>
   take 4 (cub_bytes (mk_world bad_tag_bytes)) = CUBE \<and>
   header_word LittleEndianHost (mk_world bad_tag_bytes) 0 = 1 \<and>
   fst (cub_file_check LittleEndianHost (mk_world bad_tag_bytes)) = CUB_FILE_CORRUPT \<and>
   28 \<le> length (cub_bytes (mk_world example_bytes)) \<and>
   take 4 (cub_bytes (mk_world example_bytes)) = CUBE \<and>
   header_word BigEndianHost (mk_world example_bytes) 0 = 0 \<and>
   fst (cub_file_check BigEndianHost (mk_world example_bytes)) = 0 \<and>
   map_option fst (fst (snd (cub_file_check BigEndianHost (mk_world example_bytes)))) = Some True \<and>
   map_option fst (fst (snd (cub_file_check LittleEndianHost (mk_world example_bytes)))) =
     Some False"
proof -
  have a1: "28 \<le> length (cub_bytes (mk_world bad_tag_bytes))"
    by (simp add: mk_world_def bad_tag_bytes_def)
  have a2: "take 4 (cub_bytes (mk_world bad_tag_bytes)) = CUBE"
    by (simp add: mk_world_def bad_tag_bytes_def CUBE_def)
  have a3: "header_word LittleEndianHost (mk_world bad_tag_bytes) 0 = 1"
    by code_simp
  have b1: "28 \<le> length (cub_bytes (mk_world example_bytes))"
    by (simp add: mk_world_def example_bytes_def)
  have b2: "take 4 (cub_bytes (mk_world example_bytes)) = CUBE"
    by (simp add: mk_world_def example_bytes_def CUBE_def)
  have b3: "header_word BigEndianHost (mk_world example_bytes) 0 = 0"
    by code_simp
  have b4: "header_word LittleEndianHost (mk_world example_bytes) 0 = 0"
    by code_simp
  show ?thesis
    using a1 a2 a3 b1 b2 b3 C8_endian_tag [OF a1 a2, of LittleEndianHost]
      C8_endian_tag [OF b1 b2, of BigEndianHost] C8_endian_tag [OF b1 b2, of LittleEndianHost] b4
    by (simp add: endian_tag_def)
qed

text \<open>
  C6. When the header validates with block count \<open>count\<close> and the capacity
  \<open>blocks_length\<close> given by the caller is smaller, \<open>cub_file_contents\<close> returns
  \<open>CUB_FILE_OVERFLOW\<close> and the caller's array is returned as it was: no element is
  written, inside or outside the capacity.
\<close>

theorem C6_overflow:
  assumes "cub_file_check host w = (0, Some (swap, count), w1)"
    and "blocks_length < count"
  shows "cub_file_contents host w blocks blocks_length = Inr (CUB_FILE_OVERFLOW, blocks, w1)"
  using cub_file_check_internal [OF assms(1)] assms(2) by (auto simp: cub_file_contents_def)

theorem C6_overflow_witness:
  "cub_file_check LittleEndianHost (mk_world example_bytes) =
     (0, Some (False, 2), (mk_world example_bytes)\<lparr>cub_pos := 28\<rparr>) \<and>
   (1 :: int) < 2 \<and>
   cub_file_contents LittleEndianHost (mk_world example_bytes) [None] 1 =
     Inr (CUB_FILE_OVERFLOW, [None], (mk_world example_bytes)\<lparr>cub_pos := 28\<rparr>)"
proof -
  have h1: "cub_file_check LittleEndianHost (mk_world example_bytes) =
     (0, Some (False, 2), (mk_world example_bytes)\<lparr>cub_pos := 28\<rparr>)"
    by code_simp
  have h2: "(1 :: int) < 2" by simp
  show ?thesis
    using h1 C6_overflow [OF h1 h2, of "[None]"] by simp
qed

text \<open>
  C10. When the header validates with block count 0, \<open>cub_file_block\<close> returns
  \<open>CUB_FILE_CORRUPT\<close> for every index and \<open>cub_file_type\<close> returns \<open>CUB_FILE_CORRUPT\<close>
  for every kind, while \<open>cub_file_list\<close> writes the line
  \<open>Table of contents is empty\<close> and no error message.
\<close>

theorem C10_block_count_zero:
  assumes "cub_file_check host w = (0, Some (swap, 0), w1)"
  shows "cub_file_block host w block = Inr (CUB_FILE_CORRUPT, w1) \<and>
         cub_file_type host w ty = Inr (CUB_FILE_CORRUPT, w1) \<and>
         cub_file_list host w = Inr (''Table of contents is empty'' @ [newline], False, w1)"
  using assms by (simp add: cub_file_block_def cub_file_type_def cub_file_list_def)

theorem C10_block_count_zero_witness:
  "cub_file_check BigEndianHost (mk_world empty_toc_bytes) =
     (0, Some (True, 0), (mk_world empty_toc_bytes)\<lparr>cub_pos := 28\<rparr>) \<and>
   cub_file_block BigEndianHost (mk_world empty_toc_bytes) 0 =
     Inr (CUB_FILE_CORRUPT, (mk_world empty_toc_bytes)\<lparr>cub_pos := 28\<rparr>) \<and>
   cub_file_type BigEndianHost (mk_world empty_toc_bytes) 2 =
     Inr (CUB_FILE_CORRUPT, (mk_world empty_toc_bytes)\<lparr>cub_pos := 28\<rparr>) \<and>
   cub_file_list BigEndianHost (mk_world empty_toc_bytes) =
     Inr (''Table of contents is empty'' @ [newline], False,
          (mk_world empty_toc_bytes)\<lparr>cub_pos := 28\<rparr>)"
proof -
  have h: "cub_file_check BigEndianHost (mk_world empty_toc_bytes) =
     (0, Some (True, 0), (mk_world empty_toc_bytes)\<lparr>cub_pos := 28\<rparr>)"
    by code_simp
  show ?thesis
    using h C10_block_count_zero [OF h, of 0 2] by simp
qed

subsection \<open>The table of contents and the lookups\<close>

lemma contents_loop_length:
  "contents_loop host swap count i blocks w = Inr (r, blocks', w') \<Longrightarrow>
   length blocks' = length blocks"
proof (induction host swap count i blocks w rule: contents_loop.induct)
  case (1 host swap count i blocks w)
  show ?case
  proof (cases "int i < count")
    case False
    with "1.prems" show ?thesis by (simp add: contents_loop.simps)
  next
    case True
    obtain data n6 w1 where fr: "fread 4 6 w = (data, n6, w1)"
      by (cases "fread 4 6 w") auto
    show ?thesis
    proof (cases "6 \<noteq> n6 \<or> length blocks \<le> i")
      case True
      with "1.prems" \<open>int i < count\<close> fr show ?thesis
        by (auto simp: contents_loop.simps [of host swap count i] Let_def split: if_splits)
    next
      case False
      with "1.prems" True fr "1.IH" [OF True fr [symmetric] refl] show ?thesis
        by (auto simp: contents_loop.simps [of host swap count i] Let_def split: if_splits)
    qed
  qed
qed

lemma cub_file_contents_length:
  assumes "cub_file_contents host w blocks n = Inr (r, blocks', w')"
  shows "length blocks' = length blocks"
  using assms
  by (auto simp: cub_file_contents_def fseek_def split: prod.splits if_splits option.splits
      dest: contents_loop_length)

lemma toc_length:
  assumes "cub_file_contents host w1 (malloc_blocks count) count = Inr (0, map Some toc, w2)"
    and "0 < count"
  shows "count = int (length toc)"
  using cub_file_contents_length [OF assms(1)] assms(2) by (simp add: malloc_blocks_def)

lemma block_at_Some:
  "i < length toc \<Longrightarrow> block_at (map Some toc) (int i) = Inr (toc ! i)"
  by (simp add: block_at_def)

lemma type_scan_takeWhile:
  assumes "count = int (length toc)" and "i \<le> length toc"
  shows "type_scan (map Some toc) count ty i =
         Inr (i + length (takeWhile (\<lambda>b. type_b b \<noteq> ty) (drop i toc)))"
  using assms
proof (induction "length toc - i" arbitrary: i)
  case 0
  then show ?case by (simp add: type_scan.simps)
next
  case (Suc k)
  then have lt: "i < length toc" by arith
  then have dr: "drop i toc = toc ! i # drop (Suc i) toc"
    by (simp add: Cons_nth_drop_Suc)
  have ih: "type_scan (map Some toc) count ty (Suc i) =
         Inr (Suc i + length (takeWhile (\<lambda>b. type_b b \<noteq> ty) (drop (Suc i) toc)))"
    using Suc.hyps(1) [of "Suc i"] Suc.hyps(2) Suc.prems lt by simp
  show ?case
    using lt Suc.prems(1) ih
    by (simp add: type_scan.simps [of _ _ _ i] block_at_Some dr)
qed

lemma replicate_numeral_Cons: "replicate (numeral k) x = x # replicate (pred_numeral k) x"
  by (simp add: numeral_eq_Suc)

lemma type_name_total: "type_name t = Inr (type_name_text t)"
proof (cases "t \<le> 6")
  case True
  then have "unat t \<le> 6" by (simp add: word_le_nat_alt)
  with True show ?thesis
    by (simp add: type_name_def type_name_text_def typenames_at_def CUB_FILE_ASSEMBLY_def
        typenames_def not_less)
next
  case False
  then show ?thesis
    by (simp add: type_name_def type_name_text_def typenames_at_def CUB_FILE_ASSEMBLY_def
        typenames_def not_le)
qed

lemma list_loop_rows:
  assumes "count = int (length toc)" and "i \<le> length toc"
  shows "list_loop (map Some toc) count i stream =
         Inr (stream @ concat (map (\<lambda>k. list_row k (type_name_text (type_b (toc ! k))) (toc ! k))
                [i..<length toc]))"
  using assms
proof (induction "length toc - i" arbitrary: i stream)
  case 0
  then show ?case by (simp add: list_loop.simps)
next
  case (Suc k)
  then have lt: "i < length toc" by arith
  let ?row = "list_row i (type_name_text (type_b (toc ! i))) (toc ! i)"
  have ih: "list_loop (map Some toc) count (Suc i) (stream @ ?row) =
         Inr ((stream @ ?row) @
           concat (map (\<lambda>k. list_row k (type_name_text (type_b (toc ! k))) (toc ! k))
                [Suc i..<length toc]))"
    using Suc.hyps(1) [of "Suc i"] Suc.hyps(2) Suc.prems lt by simp
  show ?case
    using lt Suc.prems(1) ih
    by (simp add: list_loop.simps [of _ _ i] block_at_Some type_name_total upt_conv_Cons)
qed

text \<open>
  Every operation seeks to the start of the file first: the position of the cursor at
  the call has no influence.
\<close>

lemma check_file_internal_cursor:
  "check_file_internal host (w\<lparr>cub_pos := p\<rparr>) = check_file_internal host w"
  by (simp add: check_file_internal_def fseek_def)

lemma cub_file_type_cursor:
  "cub_file_type host (w\<lparr>cub_pos := p\<rparr>) ty = cub_file_type host w ty"
  by (simp add: cub_file_type_def cub_file_check_def check_file_internal_cursor)

text \<open>
  C1, as amended. For a file whose header validates with a positive block count and whose
  table of contents is read completely (\<open>toc\<close>, in file order), \<open>cub_file_type\<close>
  takes the first descriptor whose kind is the requested one, whatever its length: when
  no descriptor has that kind, or when that first one has length 0, the result is
  \<open>CUB_FILE_NOT_FOUND\<close>; otherwise the block of that first descriptor is copied. The
  result is a function of the file alone.
\<close>

theorem C1_first_match:
  assumes "cub_file_check host w = (0, Some (swap, count), w1)"
    and "0 < count"
    and "cub_file_contents host w1 (malloc_blocks count) count = Inr (0, map Some toc, w2)"
  shows "cub_file_type host w ty =
     (case find (\<lambda>b. type_b b = ty) toc of
        None \<Rightarrow> Inr (CUB_FILE_NOT_FOUND, w2)
      | Some b \<Rightarrow>
          if length_b b = 0 then Inr (CUB_FILE_NOT_FOUND, w2)
          else Inr (internal_copy_data w2 (offset_b b) (length_b b)))"
proof -
  have len: "count = int (length toc)"
    using toc_length [OF assms(3,2)] .
  let ?i = "length (takeWhile (\<lambda>b. type_b b \<noteq> ty) toc)"
  have scan: "type_scan (map Some toc) count ty 0 = Inr ?i"
    using type_scan_takeWhile [OF len, of 0 ty] by simp
  show ?thesis
  proof (cases "find (\<lambda>b. type_b b = ty) toc")
    case None
    then have "\<forall>b\<in>set toc. type_b b \<noteq> ty" by (simp add: find_None_iff)
    then have "?i = length toc"
      by (induction toc) auto
    with None assms scan len show ?thesis
      by (simp add: cub_file_type_def)
  next
    case (Some b)
    then have ex: "\<exists>b\<in>set toc. type_b b = ty" by (auto simp: find_Some_iff)
    then have lt: "?i < length toc"
      by (induction toc) auto
    have "find (\<lambda>b. type_b b = ty) toc = Some (toc ! ?i)"
      using ex by (induction toc) auto
    with Some have b: "toc ! ?i = b" by simp
    from lt len have ne: "int ?i \<noteq> count" by simp
    show ?thesis
      using Some assms(1,2,3) scan ne block_at_Some [OF lt] b
      by (simp add: cub_file_type_def)
  qed
qed

theorem C1_first_match_witness:
  "cub_file_check BigEndianHost (mk_world example_bytes) =
     (0, Some (True, 2), (mk_world example_bytes)\<lparr>cub_pos := 28\<rparr>) \<and>
   cub_file_contents BigEndianHost ((mk_world example_bytes)\<lparr>cub_pos := 28\<rparr>)
       (malloc_blocks 2) 2 =
     Inr (0, map Some [\<lparr>type_b = 2, offset_b = 76, length_b = 10\<rparr>,
                       \<lparr>type_b = 0, offset_b = 86, length_b = 0\<rparr>],
          (mk_world example_bytes)\<lparr>cub_pos := 76\<rparr>) \<and>
   cub_file_type BigEndianHost (mk_world example_bytes) 2 =
     Inr (internal_copy_data ((mk_world example_bytes)\<lparr>cub_pos := 76\<rparr>) 76 10) \<and>
   cub_file_type BigEndianHost (mk_world example_bytes) 0 =
     Inr (CUB_FILE_NOT_FOUND, (mk_world example_bytes)\<lparr>cub_pos := 76\<rparr>) \<and>
   cub_file_type BigEndianHost (mk_world example_bytes) 5 =
     Inr (CUB_FILE_NOT_FOUND, (mk_world example_bytes)\<lparr>cub_pos := 76\<rparr>)"
proof -
  have h1: "cub_file_check BigEndianHost (mk_world example_bytes) =
     (0, Some (True, 2), (mk_world example_bytes)\<lparr>cub_pos := 28\<rparr>)"
    by code_simp
  have h2: "(0 :: int) < 2" by simp
  have h3: "cub_file_contents BigEndianHost ((mk_world example_bytes)\<lparr>cub_pos := 28\<rparr>)
       (malloc_blocks 2) 2 =
     Inr (0, map Some [\<lparr>type_b = 2, offset_b = 76, length_b = 10\<rparr>,
                       \<lparr>type_b = 0, offset_b = 86, length_b = 0\<rparr>],
          (mk_world example_bytes)\<lparr>cub_pos := 76\<rparr>)"
    by code_simp
  show ?thesis
    using h1 h3 C1_first_match [OF h1 h2 h3, of 2] C1_first_match [OF h1 h2 h3, of 0]
      C1_first_match [OF h1 h2 h3, of 5]
    by simp
qed

text \<open>
  C1 as stated fails: in \<open>duplicate_bytes\<close> the second descriptor has the requested kind 2
  and length 10, but the first descriptor of kind 2 has length 0, and \<open>cub_file_type\<close>
  returns \<open>CUB_FILE_NOT_FOUND\<close> instead of copying the second block.
\<close>

theorem C1_counterexample:
  "cub_file_contents LittleEndianHost ((mk_world duplicate_bytes)\<lparr>cub_pos := 28\<rparr>)
       (malloc_blocks 2) 2 =
     Inr (0, [Some \<lparr>type_b = 2, offset_b = 76, length_b = 0\<rparr>,
              Some \<lparr>type_b = 2, offset_b = 76, length_b = 10\<rparr>],
          (mk_world duplicate_bytes)\<lparr>cub_pos := 76\<rparr>) \<and>
   cub_file_type LittleEndianHost (mk_world duplicate_bytes) 2 =
     Inr (CUB_FILE_NOT_FOUND, (mk_world duplicate_bytes)\<lparr>cub_pos := 76\<rparr>) \<and>
   cub_file_type LittleEndianHost (mk_world duplicate_bytes) 2 \<noteq>
     Inr (internal_copy_data ((mk_world duplicate_bytes)\<lparr>cub_pos := 76\<rparr>) 76 10)"
  by code_simp

text \<open>
  C4, as amended. For a file whose header validates with a positive block count and whose
  table of contents is read completely, \<open>cub_file_block\<close> returns
  \<open>CUB_FILE_NOT_FOUND\<close> for every index that is at least the block count, and for every
  index from 0 below the block count whose descriptor has length 0.
\<close>

theorem C4_index_bounds:
  assumes "cub_file_check host w = (0, Some (swap, count), w1)"
    and "0 < count"
    and "cub_file_contents host w1 (malloc_blocks count) count = Inr (0, map Some toc, w2)"
  shows "(count \<le> block \<longrightarrow> cub_file_block host w block = Inr (CUB_FILE_NOT_FOUND, w2)) \<and>
         (0 \<le> block \<and> block < count \<and> length_b (toc ! nat block) = 0 \<longrightarrow>
            cub_file_block host w block = Inr (CUB_FILE_NOT_FOUND, w2))"
proof -
  have len: "count = int (length toc)"
    using toc_length [OF assms(3,2)] .
  show ?thesis
    using assms len block_at_Some [of "nat block" toc]
    by (auto simp: cub_file_block_def)
qed

theorem C4_index_bounds_witness:
  "cub_file_check LittleEndianHost (mk_world example_bytes) =
     (0, Some (False, 2), (mk_world example_bytes)\<lparr>cub_pos := 28\<rparr>) \<and>
   cub_file_contents LittleEndianHost ((mk_world example_bytes)\<lparr>cub_pos := 28\<rparr>)
       (malloc_blocks 2) 2 =
     Inr (0, map Some [\<lparr>type_b = 2, offset_b = 76, length_b = 10\<rparr>,
                       \<lparr>type_b = 0, offset_b = 86, length_b = 0\<rparr>],
          (mk_world example_bytes)\<lparr>cub_pos := 76\<rparr>) \<and>
   cub_file_block LittleEndianHost (mk_world example_bytes) 2 =
     Inr (CUB_FILE_NOT_FOUND, (mk_world example_bytes)\<lparr>cub_pos := 76\<rparr>) \<and>
   cub_file_block LittleEndianHost (mk_world example_bytes) 1 =
     Inr (CUB_FILE_NOT_FOUND, (mk_world example_bytes)\<lparr>cub_pos := 76\<rparr>)"
proof -
  have h1: "cub_file_check LittleEndianHost (mk_world example_bytes) =
     (0, Some (False, 2), (mk_world example_bytes)\<lparr>cub_pos := 28\<rparr>)"
    by code_simp
  have h2: "(0 :: int) < 2" by simp
  have h3: "cub_file_contents LittleEndianHost ((mk_world example_bytes)\<lparr>cub_pos := 28\<rparr>)
       (malloc_blocks 2) 2 =
     Inr (0, map Some [\<lparr>type_b = 2, offset_b = 76, length_b = 10\<rparr>,
                       \<lparr>type_b = 0, offset_b = 86, length_b = 0\<rparr>],
          (mk_world example_bytes)\<lparr>cub_pos := 76\<rparr>)"
    by code_simp
  show ?thesis
    using h1 h3 C4_index_bounds [OF h1 h2 h3, of 2] C4_index_bounds [OF h1 h2 h3, of 1]
    by simp
qed

text \<open>
  C4 as stated fails: the header of \<open>empty_toc_bytes\<close> validates with block count 0 and
  its empty table of contents is read with result 0, the index 0 is outside the range
  from 0 below 0, and \<open>cub_file_block\<close> returns \<open>CUB_FILE_CORRUPT\<close>, not
  \<open>CUB_FILE_NOT_FOUND\<close>.
\<close>

theorem C4_counterexample:
  "cub_file_check LittleEndianHost (mk_world empty_toc_bytes) =
     (0, Some (False, 0), (mk_world empty_toc_bytes)\<lparr>cub_pos := 28\<rparr>) \<and>
   cub_file_contents LittleEndianHost (mk_world empty_toc_bytes) [] 0 =
     Inr (0, [], (mk_world empty_toc_bytes)\<lparr>cub_pos := 28\<rparr>) \<and>
   cub_file_block LittleEndianHost (mk_world empty_toc_bytes) 0 =
     Inr (CUB_FILE_CORRUPT, (mk_world empty_toc_bytes)\<lparr>cub_pos := 28\<rparr>) \<and>
   CUB_FILE_CORRUPT \<noteq> CUB_FILE_NOT_FOUND"
  by code_simp

text \<open>
  A negative index passes the test \<^verbatim>\<open>block >= count\<close> and \<^verbatim>\<open>data[block]\<close> is read
  in front of the allocated array.
\<close>

lemma cub_file_block_negative_index:
  "cub_file_block LittleEndianHost (mk_world example_bytes) (- 1) = Inl OutOfBoundsAccess"
  by code_simp

text \<open>
  C9. For a file whose header validates with a positive block count and whose table of
  contents is read completely, \<open>cub_file_list\<close> never reads outside the table of type
  names: it writes the heading and one row for each descriptor, and the row of every
  descriptor whose kind is above 6 carries the name \<open>?\<close>.
\<close>

theorem C9_listing_fallback:
  assumes "cub_file_check host w = (0, Some (swap, count), w1)"
    and "0 < count"
    and "cub_file_contents host w1 (malloc_blocks count) count = Inr (0, map Some toc, w2)"
  shows "cub_file_list host w =
     Inr (list_heading @
          concat (map (\<lambda>i. list_row i (if 6 < type_b (toc ! i) then ''?''
                                       else typenames ! unat (type_b (toc ! i))) (toc ! i))
                  [0..<length toc]),
          False, w2)"
proof -
  have len: "count = int (length toc)"
    using toc_length [OF assms(3,2)] .
  show ?thesis
    using assms list_loop_rows [OF len, of 0 list_heading]
    by (simp add: cub_file_list_def type_name_text_def)
qed

theorem C9_listing_fallback_witness:
  "cub_file_check LittleEndianHost (mk_world unknown_kind_bytes) =
     (0, Some (True, 2), (mk_world unknown_kind_bytes)\<lparr>cub_pos := 28\<rparr>) \<and>
   cub_file_contents LittleEndianHost ((mk_world unknown_kind_bytes)\<lparr>cub_pos := 28\<rparr>)
       (malloc_blocks 2) 2 =
     Inr (0, map Some [\<lparr>type_b = 99, offset_b = 76, length_b = 1\<rparr>,
                       \<lparr>type_b = 0xFFFFFFFF, offset_b = 77, length_b = 1\<rparr>],
          (mk_world unknown_kind_bytes)\<lparr>cub_pos := 76\<rparr>) \<and>
   cub_file_list LittleEndianHost (mk_world unknown_kind_bytes) =
     Inr (list_heading @
          ''  0          ?    99          76           1'' @ [newline] @
          ''  1          ?  4294967295          77           1'' @ [newline],
          False, (mk_world unknown_kind_bytes)\<lparr>cub_pos := 76\<rparr>)"
proof -
  have h1: "cub_file_check LittleEndianHost (mk_world unknown_kind_bytes) =
     (0, Some (True, 2), (mk_world unknown_kind_bytes)\<lparr>cub_pos := 28\<rparr>)"
    by code_simp
  have h2: "(0 :: int) < 2" by simp
  have h3: "cub_file_contents LittleEndianHost ((mk_world unknown_kind_bytes)\<lparr>cub_pos := 28\<rparr>)
       (malloc_blocks 2) 2 =
     Inr (0, map Some [\<lparr>type_b = 99, offset_b = 76, length_b = 1\<rparr>,
                       \<lparr>type_b = 0xFFFFFFFF, offset_b = 77, length_b = 1\<rparr>],
          (mk_world unknown_kind_bytes)\<lparr>cub_pos := 76\<rparr>)"
    by code_simp
  have rows: "concat (map (\<lambda>i. list_row i
       (if 6 < type_b ([\<lparr>type_b = 99, offset_b = 76, length_b = 1\<rparr>,
                        \<lparr>type_b = 0xFFFFFFFF, offset_b = 77, length_b = 1\<rparr>] ! i) then ''?''
        else typenames ! unat (type_b ([\<lparr>type_b = 99, offset_b = 76, length_b = 1\<rparr>,
                        \<lparr>type_b = 0xFFFFFFFF, offset_b = 77, length_b = 1\<rparr>] ! i)))
       ([\<lparr>type_b = 99, offset_b = 76, length_b = 1\<rparr>,
         \<lparr>type_b = 0xFFFFFFFF, offset_b = 77, length_b = 1\<rparr>] ! i))
     [0..<length [\<lparr>type_b = 99, offset_b = 76, length_b = 1\<rparr>,
                  \<lparr>type_b = 0xFFFFFFFF, offset_b = 77, length_b = 1\<rparr>]]) =
     ''  0          ?    99          76           1'' @ [newline] @
     ''  1          ?  4294967295          77           1'' @ [newline]"
    apply (simp add: upt_rec)
    apply (simp add: list_row_def dec.simps pad_def replicate_numeral_Cons newline_def)
    done
  have res: "cub_file_list LittleEndianHost (mk_world unknown_kind_bytes) =
     Inr (list_heading @
          ''  0          ?    99          76           1'' @ [newline] @
          ''  1          ?  4294967295          77           1'' @ [newline],
          False, (mk_world unknown_kind_bytes)\<lparr>cub_pos := 76\<rparr>)"
    using C9_listing_fallback [OF h1 h2 h3] by (simp only: rows)
  show ?thesis
    using h1 h3 res by blast
qed

subsection \<open>Copying a block\<close>

lemma fread_frame:
  "fread sz n w = (data, k, w1) \<Longrightarrow>
   cub_bytes w1 = cub_bytes w \<and> out_written w1 = out_written w \<and> out_quota w1 = out_quota w"
  by (auto simp: fread_def Let_def)

lemma check_file_internal_frame:
  "check_file_internal host w = (r, outs, w1) \<Longrightarrow>
   cub_bytes w1 = cub_bytes w \<and> out_written w1 = out_written w \<and> out_quota w1 = out_quota w"
  by (auto simp: check_file_internal_def fseek_def fread_def Let_def split: if_splits)

lemma contents_loop_frame:
  "contents_loop host swap count i blocks w = Inr (r, blocks', w') \<Longrightarrow>
   cub_bytes w' = cub_bytes w \<and> out_written w' = out_written w \<and> out_quota w' = out_quota w"
proof (induction host swap count i blocks w rule: contents_loop.induct)
  case (1 host swap count i blocks w)
  show ?case
  proof (cases "int i < count")
    case False
    with "1.prems" show ?thesis by (simp add: contents_loop.simps)
  next
    case True
    obtain data n6 w1 where fr: "fread 4 6 w = (data, n6, w1)"
      by (cases "fread 4 6 w") auto
    note f1 = fread_frame [OF fr]
    show ?thesis
    proof (cases "6 \<noteq> n6 \<or> length blocks \<le> i")
      case True
      with "1.prems" \<open>int i < count\<close> fr f1 show ?thesis
        by (auto simp: contents_loop.simps [of host swap count i] Let_def split: if_splits)
    next
      case False
      with "1.prems" True fr f1 "1.IH" [OF True fr [symmetric] refl] show ?thesis
        by (auto simp: contents_loop.simps [of host swap count i] Let_def split: if_splits)
    qed
  qed
qed

lemma cub_file_contents_frame:
  assumes "cub_file_contents host w blocks n = Inr (r, blocks', w')"
  shows "cub_bytes w' = cub_bytes w \<and> out_written w' = out_written w \<and>
         out_quota w' = out_quota w"
proof -
  obtain r0 outs w1 where c: "check_file_internal host w = (r0, outs, w1)"
    by (cases "check_file_internal host w") auto
  note f = check_file_internal_frame [OF c]
  show ?thesis
    using assms c f contents_loop_frame [of host _ _ 0 blocks "w1\<lparr>cub_pos := _\<rparr>" r blocks' w']
    by (auto simp: cub_file_contents_def fseek_def split: if_splits option.splits)
qed

lemma fwrite_progress:
  assumes "bs \<noteq> []" and "\<forall>q\<in>set (out_quota w). 0 < q" and "fwrite bs w = (ww, w1)"
  shows "0 < ww \<and> ww \<le> length bs \<and> out_written w1 = out_written w @ take ww bs \<and>
         cub_bytes w1 = cub_bytes w \<and> cub_pos w1 = cub_pos w \<and>
         (\<forall>q\<in>set (out_quota w1). 0 < q)"
  using assms by (cases "out_quota w") (auto simp: fwrite_def Let_def)

lemma write_loop_all:
  assumes "ptr + count \<le> length buffer" and "\<forall>q\<in>set (out_quota w). 0 < q"
  shows "\<exists>w'. write_loop buffer ptr count w = (None, w') \<and>
           out_written w' = out_written w @ take count (drop ptr buffer) \<and>
           cub_bytes w' = cub_bytes w \<and> cub_pos w' = cub_pos w \<and>
           (\<forall>q\<in>set (out_quota w'). 0 < q)"
  using assms
proof (induction buffer ptr count w rule: write_loop.induct)
  case (1 buffer ptr count w)
  show ?case
  proof (cases "count = 0")
    case True
    with "1.prems" show ?thesis by (simp add: write_loop.simps)
  next
    case False
    obtain ww w1 where fw: "fwrite (take count (drop ptr buffer)) w = (ww, w1)"
      by (cases "fwrite (take count (drop ptr buffer)) w") auto
    have ne: "take count (drop ptr buffer) \<noteq> []"
      using False "1.prems"(1) by auto
    have len: "length (take count (drop ptr buffer)) = count"
      using "1.prems"(1) by simp
    note p = fwrite_progress [OF ne "1.prems"(2) fw]
    from p len have ww: "0 < ww" "ww \<le> count" by simp_all
    have "\<exists>w'. write_loop buffer (ptr + ww) (count - ww) w1 = (None, w') \<and>
           out_written w' = out_written w1 @ take (count - ww) (drop (ptr + ww) buffer) \<and>
           cub_bytes w' = cub_bytes w1 \<and> cub_pos w' = cub_pos w1 \<and>
           (\<forall>q\<in>set (out_quota w'). 0 < q)"
      using "1.IH" [OF False fw [symmetric]] ww "1.prems"(1) p by simp
    then obtain w' where w': "write_loop buffer (ptr + ww) (count - ww) w1 = (None, w')"
      "out_written w' = out_written w1 @ take (count - ww) (drop (ptr + ww) buffer)"
      "cub_bytes w' = cub_bytes w1" "cub_pos w' = cub_pos w1"
      "\<forall>q\<in>set (out_quota w'). 0 < q"
      by blast
    have split: "take count (drop ptr buffer) =
        take ww (drop ptr buffer) @ take (count - ww) (drop (ptr + ww) buffer)"
      using ww(2) take_add [of ww "count - ww" "drop ptr buffer"] by (simp add: add.commute)
    have first: "take ww (take count (drop ptr buffer)) = take ww (drop ptr buffer)"
      using ww(2) by (simp add: min_absorb1)
    have "write_loop buffer ptr count w = (None, w')"
      using False fw ww(1) w'(1) by (simp add: write_loop.simps [of buffer ptr count w])
    moreover have "out_written w' = out_written w @ take count (drop ptr buffer)"
      using w'(2) p first split by simp
    ultimately show ?thesis
      using w'(3,4,5) p by simp
  qed
qed

lemma copy_loop_all:
  assumes "cub_pos w + len \<le> length (cub_bytes w)" and "\<forall>q\<in>set (out_quota w). 0 < q"
  shows "\<exists>w'. copy_loop len w = (0, w') \<and>
           out_written w' = out_written w @ take len (drop (cub_pos w) (cub_bytes w)) \<and>
           cub_bytes w' = cub_bytes w \<and> cub_pos w' = cub_pos w + len"
  using assms
proof (induction len w rule: copy_loop.induct)
  case (1 len w)
  show ?case
  proof (cases "len = 0")
    case True
    then show ?thesis by (simp add: copy_loop.simps)
  next
    case False
    define n where "n = (if len < 1024 then len else 1024)"
    have n: "0 < n" "n \<le> len"
      using False by (simp_all add: n_def)
    define buffer where "buffer = take n (drop (cub_pos w) (cub_bytes w))"
    define w1 where "w1 = w\<lparr>cub_pos := cub_pos w + n\<rparr>"
    have fr: "fread 1 (if len < 1024 then len else 1024) w = (buffer, n, w1)"
      using fread_enough [of w 1 n] n "1.prems"(1) by (simp add: n_def buffer_def w1_def)
    have blen: "length buffer = n"
      using n "1.prems"(1) by (simp add: buffer_def)
    obtain w2 where w2: "write_loop buffer 0 n w1 = (None, w2)"
      "out_written w2 = out_written w1 @ take n (drop 0 buffer)"
      "cub_bytes w2 = cub_bytes w1" "cub_pos w2 = cub_pos w1"
      "\<forall>q\<in>set (out_quota w2). 0 < q"
      using write_loop_all [of 0 n buffer w1] blen "1.prems"(2) by (auto simp: w1_def)
    have "\<exists>w'. copy_loop (len - n) w2 = (0, w') \<and>
           out_written w' = out_written w2 @ take (len - n) (drop (cub_pos w2) (cub_bytes w2)) \<and>
           cub_bytes w' = cub_bytes w2 \<and> cub_pos w' = cub_pos w2 + (len - n)"
      using "1.IH" [OF False fr [symmetric] refl _ w2(1) [symmetric] refl] n w2 "1.prems"(1)
      by (simp add: w1_def)
    then obtain w' where w': "copy_loop (len - n) w2 = (0, w')"
      "out_written w' = out_written w2 @ take (len - n) (drop (cub_pos w2) (cub_bytes w2))"
      "cub_bytes w' = cub_bytes w2" "cub_pos w' = cub_pos w2 + (len - n)"
      by blast
    have split: "take len (drop (cub_pos w) (cub_bytes w)) =
        take n (drop (cub_pos w) (cub_bytes w)) @
        take (len - n) (drop (cub_pos w + n) (cub_bytes w))"
      using n(2) take_add [of n "len - n" "drop (cub_pos w) (cub_bytes w)"]
      by (simp add: add.commute)
    have "copy_loop len w = (0, w')"
      using False fr n(1) w2(1) w'(1) by (simp add: copy_loop.simps [of len w])
    moreover have "out_written w' = out_written w @ take len (drop (cub_pos w) (cub_bytes w))"
      using w'(2) w2(2,3,4) blen split by (simp add: w1_def buffer_def)
    ultimately show ?thesis
      using w'(3,4) w2(3,4) n(2) by (simp add: w1_def)
  qed
qed

lemma internal_copy_data_all:
  assumes "offset + len \<le> length (cub_bytes w)" and "\<forall>q\<in>set (out_quota w). 0 < q"
  shows "\<exists>w'. internal_copy_data w offset len = (0, w') \<and>
           out_written w' = out_written w @ take len (drop offset (cub_bytes w))"
  using copy_loop_all [of "w\<lparr>cub_pos := offset\<rparr>" len] assms
  by (auto simp: internal_copy_data_def fseek_def)


text \<open>
  C2. For a file whose header validates with a positive block count and whose table of
  contents is read completely, and an index from 0 below the block count whose
  descriptor has offset \<open>O\<close> and length \<open>L\<close>: when the file holds the bytes from
  \<open>O\<close> to \<open>O + L\<close> (every read delivers what is asked for) and every \<^verbatim>\<open>fwrite\<close> call
  accepts at least one byte, \<open>cub_file_block\<close> appends to the output exactly the \<open>L\<close>
  bytes of the file from offset \<open>O\<close>, for every \<open>L\<close>. The result is 0 when \<open>L\<close> is
  positive and \<open>CUB_FILE_NOT_FOUND\<close> (with nothing written) when \<open>L\<close> is 0.
\<close>

theorem C2_exact_copy:
  assumes "cub_file_check host w = (0, Some (swap, count), w1)"
    and "0 < count"
    and "cub_file_contents host w1 (malloc_blocks count) count = Inr (0, map Some toc, w2)"
    and "0 \<le> block" and "block < count"
    and "offset_b (toc ! nat block) + length_b (toc ! nat block) \<le> length (cub_bytes w)"
    and "\<forall>q\<in>set (out_quota w). 0 < q"
  shows "\<exists>w'. cub_file_block host w block =
            Inr (if length_b (toc ! nat block) = 0 then CUB_FILE_NOT_FOUND else 0, w') \<and>
          out_written w' = out_written w @
            take (length_b (toc ! nat block)) (drop (offset_b (toc ! nat block)) (cub_bytes w)) \<and>
          length (out_written w') = length (out_written w) + length_b (toc ! nat block)"
proof -
  have len: "count = int (length toc)"
    using toc_length [OF assms(3,2)] .
  obtain offset where c: "check_file_internal host w = (0, Some (swap, count, offset), w1)"
    using cub_file_check_internal [OF assms(1)] by blast
  note f1 = check_file_internal_frame [OF c]
  note f2 = cub_file_contents_frame [OF assms(3)]
  have at: "block_at (map Some toc) block = Inr (toc ! nat block)"
    using block_at_Some [of "nat block" toc] assms(4,5) len by simp
  show ?thesis
  proof (cases "length_b (toc ! nat block) = 0")
    case True
    then show ?thesis
      using assms(1,2,3,5) at f1 f2 by (simp add: cub_file_block_def)
  next
    case False
    obtain w' where w': "internal_copy_data w2 (offset_b (toc ! nat block))
          (length_b (toc ! nat block)) = (0, w')"
      "out_written w' = out_written w2 @
          take (length_b (toc ! nat block)) (drop (offset_b (toc ! nat block)) (cub_bytes w2))"
      using internal_copy_data_all [of "offset_b (toc ! nat block)"
          "length_b (toc ! nat block)" w2] assms(6,7) f1 f2
      by auto
    have "length (take (length_b (toc ! nat block))
            (drop (offset_b (toc ! nat block)) (cub_bytes w))) = length_b (toc ! nat block)"
      using assms(6) by simp
    then show ?thesis
      using False assms(1,2,3,5) at w' f1 f2 by (simp add: cub_file_block_def)
  qed
qed

theorem C2_exact_copy_witness:
  "cub_file_check LittleEndianHost ((mk_world example_bytes)\<lparr>out_quota := [3, 1, 100]\<rparr>) =
     (0, Some (False, 2), (mk_world example_bytes)\<lparr>cub_pos := 28, out_quota := [3, 1, 100]\<rparr>) \<and>
   cub_file_contents LittleEndianHost
       ((mk_world example_bytes)\<lparr>cub_pos := 28, out_quota := [3, 1, 100]\<rparr>)
       (malloc_blocks 2) 2 =
     Inr (0, map Some [\<lparr>type_b = 2, offset_b = 76, length_b = 10\<rparr>,
                       \<lparr>type_b = 0, offset_b = 86, length_b = 0\<rparr>],
          (mk_world example_bytes)\<lparr>cub_pos := 76, out_quota := [3, 1, 100]\<rparr>) \<and>
   (\<exists>w'. cub_file_block LittleEndianHost
            ((mk_world example_bytes)\<lparr>out_quota := [3, 1, 100]\<rparr>) 0 = Inr (0, w') \<and>
         out_written w' = [1, 2, 3, 4, 5, 6, 7, 8, 9, 10]) \<and>
   (\<exists>w'. cub_file_block LittleEndianHost
            ((mk_world example_bytes)\<lparr>out_quota := [3, 1, 100]\<rparr>) 1 =
            Inr (CUB_FILE_NOT_FOUND, w') \<and>
         out_written w' = [])"
proof -
  let ?w = "(mk_world example_bytes)\<lparr>out_quota := [3, 1, 100]\<rparr>"
  let ?toc = "[\<lparr>type_b = 2, offset_b = 76, length_b = 10\<rparr>,
               \<lparr>type_b = 0, offset_b = 86, length_b = 0\<rparr>]"
  have h1: "cub_file_check LittleEndianHost ?w =
     (0, Some (False, 2), (mk_world example_bytes)\<lparr>cub_pos := 28, out_quota := [3, 1, 100]\<rparr>)"
    by code_simp
  have h2: "(0 :: int) < 2" by simp
  have h3: "cub_file_contents LittleEndianHost
       ((mk_world example_bytes)\<lparr>cub_pos := 28, out_quota := [3, 1, 100]\<rparr>)
       (malloc_blocks 2) 2 =
     Inr (0, map Some ?toc,
          (mk_world example_bytes)\<lparr>cub_pos := 76, out_quota := [3, 1, 100]\<rparr>)"
    by code_simp
  have h40: "(0 :: int) \<le> 0" and h50: "(0 :: int) < 2" by simp_all
  have h41: "(0 :: int) \<le> 1" and h51: "(1 :: int) < 2" by simp_all
  have h60: "offset_b (?toc ! nat 0) + length_b (?toc ! nat 0) \<le> length (cub_bytes ?w)"
    by (simp add: mk_world_def example_bytes_def)
  have h61: "offset_b (?toc ! nat 1) + length_b (?toc ! nat 1) \<le> length (cub_bytes ?w)"
    by (simp add: mk_world_def example_bytes_def)
  have h7: "\<forall>q\<in>set (out_quota ?w). 0 < q"
    by (simp add: mk_world_def)
  have r0: "\<exists>w'. cub_file_block LittleEndianHost ?w 0 = Inr (0, w') \<and>
         out_written w' = [1, 2, 3, 4, 5, 6, 7, 8, 9, 10]"
    using C2_exact_copy [OF h1 h2 h3 h40 h50 h60 h7]
    by (simp add: mk_world_def example_bytes_def) blast?
  have r1: "\<exists>w'. cub_file_block LittleEndianHost ?w 1 = Inr (CUB_FILE_NOT_FOUND, w') \<and>
         out_written w' = []"
    using C2_exact_copy [OF h1 h2 h3 h41 h51 h61 h7]
    by (simp add: mk_world_def example_bytes_def) blast?
  show ?thesis
    using h1 h3 r0 r1 by blast
qed

text \<open>
  When the file ends before the requested length is copied and no write fails,
  \<open>internal_copy_data\<close> returns the value that \<open>errno\<close> had at the call.
\<close>

lemma write_loop_unlimited:
  assumes "out_quota w = []" and "ptr + count \<le> length buffer"
  shows "write_loop buffer ptr count w =
         (None, w\<lparr>out_written := out_written w @ take count (drop ptr buffer)\<rparr>)"
proof (cases "count = 0")
  case True
  then show ?thesis by (simp add: write_loop.simps)
next
  case False
  have "fwrite (take count (drop ptr buffer)) w =
        (count, w\<lparr>out_written := out_written w @ take count (drop ptr buffer)\<rparr>)"
    using assms by (simp add: fwrite_def)
  then show ?thesis
    using False by (simp add: write_loop.simps [of buffer ptr count w] write_loop.simps [of buffer _ 0])
qed

lemma copy_loop_truncated:
  assumes "length (cub_bytes w) < cub_pos w + len" and "out_quota w = []" and "0 < len"
  shows "fst (copy_loop len w) = errno w"
  using assms
proof (induction len w rule: copy_loop.induct)
  case (1 len w)
  have ne: "len \<noteq> 0" using "1.prems"(3) by simp
  define n where "n = (if len < 1024 then len else 1024)"
  obtain buffer cnt w1 where fr: "fread 1 n w = (buffer, cnt, w1)"
    by (cases "fread 1 n w") auto
  then have w1: "w1 = w\<lparr>cub_pos := cub_pos w + cnt\<rparr>" and cnt: "cnt = length buffer"
    and cl: "cnt \<le> n" and bl: "cnt \<le> length (cub_bytes w) - cub_pos w"
    by (auto simp: fread_def Let_def)
  show ?case
  proof (cases "cnt = 0")
    case True
    then show ?thesis
      using ne fr w1 by (simp add: copy_loop.simps [of len w] n_def [symmetric])
  next
    case False
    define w2 where "w2 = w1\<lparr>out_written := out_written w1 @ take cnt (drop 0 buffer)\<rparr>"
    have wl: "write_loop buffer 0 cnt w1 = (None, w2)"
      using write_loop_unlimited [of w1 0 cnt buffer] "1.prems"(2) cnt w1 by (simp add: w2_def)
    have short: "length (cub_bytes w2) < cub_pos w2 + (len - cnt)"
      using "1.prems"(1) bl cl False by (simp add: w2_def w1 n_def split: if_splits)
    have q: "out_quota w2 = []"
      using "1.prems"(2) by (simp add: w2_def w1)
    have pos: "0 < len - cnt"
      using "1.prems"(1) bl False by arith
    have "fst (copy_loop (len - cnt) w2) = errno w2"
      using "1.IH" [OF ne fr [unfolded n_def, symmetric] refl False wl [symmetric] refl short q pos] .
    then show ?thesis
      using ne fr False wl by (simp add: copy_loop.simps [of len w] n_def [symmetric] w2_def w1)
  qed
qed

lemma internal_copy_data_truncated:
  assumes "length (cub_bytes w) < offset + len" and "out_quota w = []" and "0 < len"
  shows "fst (internal_copy_data w offset len) = errno w"
  using copy_loop_truncated [of "w\<lparr>cub_pos := offset\<rparr>" len] assms
  by (simp add: internal_copy_data_def fseek_def)

text \<open>
  C5 fails on the code. The first descriptor of \<open>truncated_bytes\<close> has length 10, the file
  ends after five bytes of the payload, and \<open>errno\<close> is 0 at the call. The second
  \<^verbatim>\<open>fread\<close> of \<open>internal_copy_data\<close> returns 0 at the end of the file, the function
  returns \<open>errno\<close>, which is 0: \<open>cub_file_block\<close> reports success after five bytes.
\<close>

theorem C5_truncated_payload_reports_success:
  "cub_file_contents LittleEndianHost ((mk_world truncated_bytes)\<lparr>cub_pos := 28\<rparr>)
       (malloc_blocks 2) 2 =
     Inr (0, [Some \<lparr>type_b = 2, offset_b = 76, length_b = 10\<rparr>,
              Some \<lparr>type_b = 0, offset_b = 86, length_b = 0\<rparr>],
          (mk_world truncated_bytes)\<lparr>cub_pos := 76\<rparr>) \<and>
   errno (mk_world truncated_bytes) = 0 \<and>
   cub_file_block LittleEndianHost (mk_world truncated_bytes) 0 =
     Inr (0, (mk_world truncated_bytes)\<lparr>cub_pos := 81, out_written := [1, 2, 3, 4, 5]\<rparr>)"
  by code_simp

subsection \<open>Byte order\<close>

lemma swap24:
  "swap_bytes [b0, b1, b2, b3, b4, b5, b6, b7, b8, b9, b10, b11, b12, b13, b14, b15, b16, b17,
               b18, b19, b20, b21, b22, b23] 6 4 =
   [b3, b2, b1, b0, b7, b6, b5, b4, b11, b10, b9, b8, b15, b14, b13, b12, b19, b18, b17, b16,
    b23, b22, b21, b20]"
  by (simp add: swap_bytes_def swap_outer.simps swap_inner.simps)

lemma load_store_msb:
  "load32_msb [ucast (drop_bit 24 x), ucast (drop_bit 16 x), ucast (drop_bit 8 x), ucast x] =
   (x :: uint32)"
proof (rule bit_word_eqI)
  fix n :: nat
  assume n: "n < LENGTH(32)"
  consider "n < 8" | "8 \<le> n \<and> n < 16" | "16 \<le> n \<and> n < 24" | "24 \<le> n \<and> n < 32"
    using n by fastforce
  then show "bit (load32_msb [ucast (drop_bit 24 x), ucast (drop_bit 16 x),
                 ucast (drop_bit 8 x), ucast x]) n = bit x n"
    by cases (auto simp: load32_msb_def bit_simps)
qed

lemma six_words:
  assumes "length r = 6"
  obtains a b c d e f where "r = [a, b, c, d, e, f]"
  using assms by (auto simp: length_Suc_conv eval_nat_numeral)

lemma length_encode_words: "length (encode_words order r) = 4 * length r"
  by (induction r) (auto simp: encode_words_def store32_def Let_def split: endian.splits)

lemma decode_record:
  assumes "length r = 6" and "k < 6"
  shows "data_at host (if order \<noteq> host then swap_bytes (encode_words order r) 6 4
                       else encode_words order r) k = r ! k"
proof -
  obtain a b c d e f where r: "r = [a, b, c, d, e, f]"
    using assms(1) by (rule six_words)
  from assms(2) consider "k = 0" | "k = 1" | "k = 2" | "k = 3" | "k = 4" | "k = 5"
    by arith
  then show ?thesis
    by cases
      (cases host; cases order;
        simp add: r encode_words_def store32_def swap24 data_at_def load32_def load_store_msb)+
qed

lemma load_store_append: "load32 h (store32 h x @ rest) = x"
  by (cases h) (simp_all add: load32_def store32_def load_store_msb)

lemma store32_tag: "store32 order (endian_tag o') = store32 host (endian_tag o')"
  by (cases order; cases host; cases o') (simp_all add: store32_def endian_tag_def)

lemma tag_palindrome:
  "data_at host (encode_words order (endian_tag order # ws)) 0 = endian_tag order"
  using store32_tag [of order order host]
  by (simp add: data_at_def encode_words_def load_store_append)

lemma endian_tag_inject: "endian_tag a = endian_tag b \<longleftrightarrow> a = b"
  by (cases a; cases b) (simp_all add: endian_tag_def)

lemma sint_small: "n < 2 ^ 31 \<Longrightarrow> sint (word_of_nat n :: uint32) = int n"
  by (simp add: signed_of_nat signed_take_bit_int_eq_self)

lemma unat_small: "n < 2 ^ 32 \<Longrightarrow> unat (word_of_nat n :: uint32) = n"
  by (simp add: unat_of_nat)

lemma contents_loop_encoded:
  assumes "drop (cub_pos w) (cub_bytes w) = concat (map (encode_words order) recs) @ rest"
    and "\<forall>r\<in>set recs. length r = 6"
    and "count = int (i + length recs)"
    and "i + length recs \<le> length blocks"
  shows "contents_loop host (order \<noteq> host) count i blocks w =
         Inr (0, take i blocks @ map (Some \<circ> descriptor) recs @ drop (i + length recs) blocks,
              w\<lparr>cub_pos := cub_pos w + 24 * length recs\<rparr>)"
  using assms
proof (induction recs arbitrary: i blocks w)
  case Nil
  then show ?case by (simp add: contents_loop.simps)
next
  case (Cons r recs)
  have r6: "length r = 6" using Cons.prems(2) by simp
  have d: "drop (cub_pos w) (cub_bytes w) =
      encode_words order r @ concat (map (encode_words order) recs) @ rest"
    using Cons.prems(1) by simp
  have lr: "length (encode_words order r) = 24"
    using r6 by (simp add: length_encode_words)
  have "24 \<le> length (drop (cub_pos w) (cub_bytes w))"
    using lr by (simp add: d)
  then have enough: "cub_pos w + 4 * 6 \<le> length (cub_bytes w)" by simp
  have tk: "take 24 (drop (cub_pos w) (cub_bytes w)) = encode_words order r"
    using lr by (simp add: d)
  define w1 where "w1 = w\<lparr>cub_pos := cub_pos w + 24\<rparr>"
  have fr: "fread 4 6 w = (encode_words order r, 6, w1)"
    using fread_enough [OF enough] tk by (simp add: w1_def)
  have d1: "drop (cub_pos w1) (cub_bytes w1) = concat (map (encode_words order) recs) @ rest"
  proof -
    have "drop (cub_pos w + 24) (cub_bytes w) = drop 24 (drop (cub_pos w) (cub_bytes w))"
      by (simp add: add.commute)
    also have "\<dots> = concat (map (encode_words order) recs) @ rest"
      using lr by (simp add: d)
    finally show ?thesis by (simp add: w1_def)
  qed
  define b where "b = Some (descriptor r)"
  have il: "i < length blocks" using Cons.prems(4) by simp
  have lt: "int i < count" using Cons.prems(3) by simp
  have step: "contents_loop host (order \<noteq> host) count i blocks w =
      contents_loop host (order \<noteq> host) count (Suc i) (blocks[i := b]) w1"
    apply (subst contents_loop.simps)
    using lt il fr decode_record [OF r6, of 0 host order]
      decode_record [OF r6, of 1 host order] decode_record [OF r6, of 2 host order]
    apply (simp add: Let_def b_def descriptor_def)
    done
  have ih: "contents_loop host (order \<noteq> host) count (Suc i) (blocks[i := b]) w1 =
      Inr (0, take (Suc i) (blocks[i := b]) @ map (Some \<circ> descriptor) recs @
              drop (Suc i + length recs) (blocks[i := b]),
           w1\<lparr>cub_pos := cub_pos w1 + 24 * length recs\<rparr>)"
    using Cons.IH [OF d1, of "Suc i" "blocks[i := b]"] Cons.prems(2,3,4) by simp
  have "take (Suc i) (blocks[i := b]) = take i blocks @ [b]"
    using il by (simp add: take_Suc_conv_app_nth)
  moreover have "drop (Suc i + length recs) (blocks[i := b]) =
      drop (i + length (r # recs)) blocks"
    by simp
  ultimately show ?case
    using step ih by (simp add: w1_def b_def)
qed


lemma check_encoded:
  assumes "cub_bytes w = encode_cub order r1 r4 r5 gap recs rest"
    and "length recs < 2 ^ 31" and "28 + length gap < 2 ^ 32"
  shows "check_file_internal host w =
         (0, Some (order \<noteq> host, int (length recs), 28 + length gap), w\<lparr>cub_pos := 28\<rparr>)"
proof -
  define hdr where "hdr = [endian_tag order, r1, word_of_nat (length recs),
      word_of_nat (28 + length gap), r4, r5]"
  have h6: "length hdr = 6" by (simp add: hdr_def)
  have lh: "length (encode_words order hdr) = 24"
    using h6 by (simp add: length_encode_words)
  have bytes: "cub_bytes w =
      CUBE @ encode_words order hdr @ gap @ concat (map (encode_words order) recs) @ rest"
    using assms(1) by (simp add: encode_cub_def hdr_def)
  have l4: "length CUBE = 4" by (simp add: CUBE_def)
  have a1: "28 \<le> length (cub_bytes w)" using lh l4 by (simp add: bytes)
  have a2: "take 4 (cub_bytes w) = CUBE" using l4 by (simp add: bytes)
  have data: "take 24 (drop 4 (cub_bytes w)) = encode_words order hdr"
    using lh l4 by (simp add: bytes)
  have tag: "data_at host (encode_words order hdr) 0 = endian_tag order"
    using tag_palindrome [of host order] by (simp add: hdr_def)
  have sw: "(endian_tag order \<noteq> get_endian host) = (order \<noteq> host)"
    by (simp add: get_endian_tag endian_tag_inject)
  have sentinel: "endian_tag order = BIGENDIAN \<or> endian_tag order = LITENDIAN"
    by (cases order) (simp_all add: endian_tag_def BIGENDIAN_def LITENDIAN_def)
  have w2: "data_at host (if order \<noteq> host then swap_bytes (encode_words order hdr) 6 4
        else encode_words order hdr) 2 = word_of_nat (length recs)"
    using decode_record [OF h6, of 2 host order] by (simp add: hdr_def)
  have w3: "data_at host (if order \<noteq> host then swap_bytes (encode_words order hdr) 6 4
        else encode_words order hdr) 3 = word_of_nat (28 + length gap)"
    using decode_record [OF h6, of 3 host order] by (simp add: hdr_def)
  show ?thesis
    using sentinel w2 w3 sint_small [OF assms(2)] unat_small [OF assms(3)]
    by (simp add: check_header [OF a1 a2] data tag sw Let_def)
qed

text \<open>
  C3. A file laid out as the format prescribes, with every word written in the byte order
  \<open>order\<close>, is read by \<open>cub_file_contents\<close> on a host of byte order \<open>host\<close> with
  result 0 and with exactly the descriptors that were encoded, for each of the four
  pairings of \<open>order\<close> and \<open>host\<close>: the descriptor values do not depend on the pairing.
  (The block count is below \<open>2^31\<close>, the offset of the table below \<open>2^32\<close>, and the
  caller's array and capacity hold the block count.)
\<close>

theorem C3_round_trip:
  assumes "cub_bytes w = encode_cub order r1 r4 r5 gap recs rest"
    and "\<forall>r\<in>set recs. length r = 6"
    and "length recs < 2 ^ 31" and "28 + length gap < 2 ^ 32"
    and "length recs \<le> length blocks" and "int (length recs) \<le> blocks_length"
  shows "cub_file_contents host w blocks blocks_length =
         Inr (0, map (Some \<circ> descriptor) recs @ drop (length recs) blocks,
              w\<lparr>cub_pos := 28 + length gap + 24 * length recs\<rparr>)"
proof -
  define w2 where "w2 = w\<lparr>cub_pos := 28 + length gap\<rparr>"
  have l4: "length CUBE = 4" by (simp add: CUBE_def)
  have "drop (28 + length gap) (cub_bytes w) = concat (map (encode_words order) recs) @ rest"
    using l4 by (simp add: assms(1) encode_cub_def length_encode_words)
  then have d: "drop (cub_pos w2) (cub_bytes w2) =
      concat (map (encode_words order) recs) @ rest"
    by (simp add: w2_def)
  have "contents_loop host (order \<noteq> host) (int (length recs)) 0 blocks w2 =
      Inr (0, take 0 blocks @ map (Some \<circ> descriptor) recs @ drop (0 + length recs) blocks,
           w2\<lparr>cub_pos := cub_pos w2 + 24 * length recs\<rparr>)"
    using contents_loop_encoded [OF d assms(2), of "int (length recs)" 0 blocks host] assms(5)
    by simp
  then show ?thesis
    using check_encoded [OF assms(1,3,4), of host] assms(6)
    by (simp add: cub_file_contents_def fseek_def w2_def)
qed

theorem C3_round_trip_witness:
  "cub_file_contents BigEndianHost (mk_world (round_trip_bytes BigEndianHost)) [None, None] 2 =
     Inr (0, [Some \<lparr>type_b = 2, offset_b = 77, length_b = 10\<rparr>,
              Some \<lparr>type_b = 99, offset_b = 87, length_b = 0\<rparr>],
          (mk_world (round_trip_bytes BigEndianHost))\<lparr>cub_pos := 77\<rparr>) \<and>
   cub_file_contents LittleEndianHost (mk_world (round_trip_bytes BigEndianHost)) [None, None] 2 =
     Inr (0, [Some \<lparr>type_b = 2, offset_b = 77, length_b = 10\<rparr>,
              Some \<lparr>type_b = 99, offset_b = 87, length_b = 0\<rparr>],
          (mk_world (round_trip_bytes BigEndianHost))\<lparr>cub_pos := 77\<rparr>) \<and>
   cub_file_contents BigEndianHost (mk_world (round_trip_bytes LittleEndianHost)) [None, None] 2 =
     Inr (0, [Some \<lparr>type_b = 2, offset_b = 77, length_b = 10\<rparr>,
              Some \<lparr>type_b = 99, offset_b = 87, length_b = 0\<rparr>],
          (mk_world (round_trip_bytes LittleEndianHost))\<lparr>cub_pos := 77\<rparr>) \<and>
   cub_file_contents LittleEndianHost (mk_world (round_trip_bytes LittleEndianHost))
       [None, None] 2 =
     Inr (0, [Some \<lparr>type_b = 2, offset_b = 77, length_b = 10\<rparr>,
              Some \<lparr>type_b = 99, offset_b = 87, length_b = 0\<rparr>],
          (mk_world (round_trip_bytes LittleEndianHost))\<lparr>cub_pos := 77\<rparr>)"
proof -
  let ?recs = "[[2, 77, 10, 1, 2, 3], [99, 87, 0, 4, 5, 6]] :: uint32 list list"
  have h1: "cub_bytes (mk_world (round_trip_bytes order)) =
      encode_cub order 7 8 9 [5] ?recs [1, 2]" for order
    by (simp add: mk_world_def round_trip_bytes_def)
  have h2: "\<forall>r\<in>set ?recs. length r = 6" by simp
  have h3: "length ?recs < 2 ^ 31" by simp
  have h4: "28 + length [5 :: byte] < 2 ^ 32" by simp
  have h5: "length ?recs \<le> length [None :: CubFileBlock option, None]" by simp
  have h6: "int (length ?recs) \<le> 2" by simp
  show ?thesis
    using C3_round_trip [OF h1 h2 h3 h4 h5 h6] by (simp add: descriptor_def)
qed

end
